theory Spec2Isabelle
  imports Complex_Main "HOL-Library.Monad_Syntax" "HOL-Library.Sublist"
begin

section \<open>Stroke geometry of the whiteboard (utils/mathUtils.ts, types.ts)\<close>

text \<open>
  The geometry engine works on JavaScript numbers. They are modelled as mathematical
  reals: \<open>Math.sqrt\<close> is \<^const>\<open>sqrt\<close>, \<open>Math.pow(a, 2)\<close> is \<open>a\<^sup>2\<close>, \<open>Math.cos\<close>
  and \<open>Math.sin\<close> are \<^const>\<open>cos\<close> and \<^const>\<open>sin\<close>. \<open>Math.PI\<close> is not \<^const>\<open>pi\<close> but the
  double nearest to it, a rational number. The rounding of the arithmetic operations,
  NaN, the infinities and underflow of IEEE arithmetic, and the limits of the JavaScript
  engine on the call stack and on the number of arguments are outside the model.

  A function that may recurse without end is a function into \<open>option\<close>, where
  \<open>None\<close> means that the call does not return.
\<close>

subsection \<open>Points (types.ts)\<close>

record Point =
  x :: real
  y :: real

subsection \<open>Geometry primitives\<close>

definition distance :: "Point \<Rightarrow> Point \<Rightarrow> real" where
  "distance p1 p2 = sqrt ((x p2 - x p1)\<^sup>2 + (y p2 - y p1)\<^sup>2)"

definition distToSegment :: "Point \<Rightarrow> Point \<Rightarrow> Point \<Rightarrow> real" where
  "distToSegment p v w =
     (let l2 = (distance v w)\<^sup>2 in
      if l2 = 0 then distance p v
      else
        let t = ((x p - x v) * (x w - x v) + (y p - y v) * (y w - y v)) / l2;
            t = max 0 (min 1 t);
            projection = \<lparr>x = x v + t * (x w - x v), y = y v + t * (y w - y v)\<rparr>
        in distance p projection)"

text \<open>
  \<open>Math.min(...xs)\<close> and \<open>Math.max(...xs)\<close>. Both callers reach them only behind a
  guard on the number of points, so the list is never empty there.
\<close>

fun mathMin :: "real list \<Rightarrow> real" where
  "mathMin (a # as) = fold min as a"

fun mathMax :: "real list \<Rightarrow> real" where
  "mathMax (a # as) = fold max as a"

subsection \<open>Ramer-Douglas-Peucker simplification\<close>

text \<open>
  The scan of \<open>simplifyPoints\<close>: \<open>for (let i = 1; i < end; i++)\<close> over the state
  \<open>(dmax, index)\<close>, which starts at \<open>(0, 0)\<close>. \<open>farthestStep\<close> is the body of the loop.
\<close>

fun farthestStep :: "Point list \<Rightarrow> nat \<Rightarrow> nat \<Rightarrow> real \<times> nat \<Rightarrow> real \<times> nat" where
  "farthestStep points end i (dmax, index) =
     (let d = distToSegment (points ! i) (points ! 0) (points ! end)
      in if d > dmax then (d, i) else (dmax, index))"

definition farthest :: "Point list \<Rightarrow> nat \<Rightarrow> real \<times> nat" where
  "farthest points end = fold (farthestStep points end) [1..<end] (0, 0)"

partial_function (option) simplifyPoints :: "Point list \<Rightarrow> real \<Rightarrow> Point list option" where
  "simplifyPoints points epsilon =
     (if length points < 3 then Some points
      else
        let end = length points - 1;
            (dmax, index) = farthest points end
        in if dmax > epsilon then
             do {
               res1 \<leftarrow> simplifyPoints (take (index + 1) points) epsilon;
               res2 \<leftarrow> simplifyPoints (drop index points) epsilon;
               Some (butlast res1 @ res2)
             }
           else Some [points ! 0, points ! end])"

subsection \<open>Shape recognition\<close>

text \<open>
  \<open>points.reduce((acc, p, i) => i > 0 ? acc + distance(points[i-1], p) : 0, 0)\<close>
\<close>

definition totalLength :: "Point list \<Rightarrow> real" where
  "totalLength points =
     fold (\<lambda>(i, p) acc. if i > 0 then acc + distance (points ! (i - 1)) p else 0)
          (zip [0..<length points] points) 0"

definition directDistance :: "Point list \<Rightarrow> real" where
  "directDistance points = distance (points ! 0) (points ! (length points - 1))"

definition isClosed :: "Point list \<Rightarrow> bool" where
  "isClosed points =
     (distance (points ! 0) (points ! (length points - 1)) < totalLength points * 0.25)"

definition minX :: "Point list \<Rightarrow> real" where
  "minX points = mathMin (map x points)"

definition maxX :: "Point list \<Rightarrow> real" where
  "maxX points = mathMax (map x points)"

definition minY :: "Point list \<Rightarrow> real" where
  "minY points = mathMin (map y points)"

definition maxY :: "Point list \<Rightarrow> real" where
  "maxY points = mathMax (map y points)"

definition diagonal :: "Point list \<Rightarrow> real" where
  "diagonal points =
     (let width = maxX points - minX points;
          height = maxY points - minY points
      in sqrt (width * width + height * height))"

definition center :: "Point list \<Rightarrow> Point" where
  "center points =
     (let width = maxX points - minX points;
          height = maxY points - minY points
      in \<lparr>x = minX points + width / 2, y = minY points + height / 2\<rparr>)"

text \<open>The distances of the first \<open>n\<close> simplified vertices to the centre, and their mean.\<close>

definition dists :: "Point list \<Rightarrow> int \<Rightarrow> Point \<Rightarrow> real list" where
  "dists simplified n c = map (\<lambda>p. distance p c) (take (nat n) simplified)"

definition avgDist :: "Point list \<Rightarrow> int \<Rightarrow> Point \<Rightarrow> real" where
  "avgDist simplified n c = fold (\<lambda>b a. a + b) (dists simplified n c) 0 / real_of_int n"

definition cv :: "Point list \<Rightarrow> int \<Rightarrow> Point \<Rightarrow> real" where
  "cv simplified n c =
     (let variance =
            fold (\<lambda>b a. a + (b - avgDist simplified n c)\<^sup>2) (dists simplified n c) 0
              / real_of_int n;
          stdDev = sqrt variance
      in stdDev / avgDist simplified n c)"

text \<open>
  \<open>Math.PI\<close> is the double \<open>0x400921FB54442D18\<close>, which is \<open>884279719003555 / 2 ^ 48\<close>
  (printed as 3.141592653589793). It is a little less than \<^const>\<open>pi\<close>.
\<close>

definition mathPI :: real where
  "mathPI = 884279719003555 / 281474976710656"

text \<open>The ellipse loop: \<open>for (let i = 0; i <= segments; i++)\<close> with \<open>segments = 45\<close>.\<close>

definition ellipsePoints :: "Point \<Rightarrow> real \<Rightarrow> real \<Rightarrow> Point list" where
  "ellipsePoints c rx ry =
     map (\<lambda>i. let angle = (real i / 45) * mathPI * 2
               in \<lparr>x = x c + rx * cos angle, y = y c + ry * sin angle\<rparr>)
         [0..<46]"

text \<open>
  The result is \<open>None\<close> when the call does not return, \<open>Some None\<close> for the source's
  \<open>null\<close>, and \<open>Some (Some ps)\<close> for a corrected point sequence.
\<close>

definition recognizeShape :: "Point list \<Rightarrow> Point list option option" where
  "recognizeShape points =
     (if length points < 10 then Some None
      else
        let start = points ! 0;
            end = points ! (length points - 1)
        in if \<not> isClosed points then
             (if totalLength points < directDistance points * 1.2 then Some (Some [start, end])
              else Some None)
           else
             let width = maxX points - minX points;
                 height = maxY points - minY points;
                 epsilon = diagonal points * 0.05
             in do {
               simplified \<leftarrow> simplifyPoints points epsilon;
               let n = int (length simplified) - 1
               in if n = 3 then Some (Some (take 3 simplified))
                  else if n = 4 then
                    Some (Some [\<lparr>x = minX points, y = minY points\<rparr>,
                                \<lparr>x = maxX points, y = minY points\<rparr>,
                                \<lparr>x = maxX points, y = maxY points\<rparr>,
                                \<lparr>x = minX points, y = maxY points\<rparr>])
                  else if n \<ge> 5 then
                    (if cv simplified n (center points) < 0.15 then
                       Some (Some (ellipsePoints (center points) (width / 2) (height / 2)))
                     else Some (Some (take (nat n) simplified)))
                  else Some None
             })"

subsection \<open>Stroke eraser hit test\<close>

text \<open>The stroke type of types.ts, with its tool tag.\<close>

datatype ToolType = PEN | HIGHLIGHTER | ERASER | SELECT | HAND | LASER

record DrawingPath =
  points :: "Point list"
  color :: string
  width :: real
  tool :: ToolType
  opacity :: real
  isShape :: "bool option"

text \<open>The detailed segment check: the loop over \<open>i\<close> with its early return.\<close>

function segmentCheck :: "Point \<Rightarrow> DrawingPath \<Rightarrow> real \<Rightarrow> nat \<Rightarrow> bool" where
  "segmentCheck point path threshold i =
     (if i < length (points path) - 1 then
        (let d = distToSegment point (points path ! i) (points path ! (i + 1))
         in if d < threshold + width path / 2 then True
            else segmentCheck point path threshold (i + 1))
      else False)"
  by pat_completeness auto
termination
  by (relation "measure (\<lambda>(point, path, threshold, i). length (points path) - 1 - i)") auto

declare segmentCheck.simps [simp del]

text \<open>The source's default \<open>threshold = 5\<close> is the caller's to pass here.\<close>

definition isPointNearPath :: "Point \<Rightarrow> DrawingPath \<Rightarrow> real \<Rightarrow> bool" where
  "isPointNearPath point path threshold =
     (if length (points path) < 2 then False
      else
        let xs = map x (points path);
            ys = map y (points path);
            minX = mathMin xs - threshold;
            maxX = mathMax xs + threshold;
            minY = mathMin ys - threshold;
            maxY = mathMax ys + threshold
        in if x point < minX \<or> x point > maxX \<or> y point < minY \<or> y point > maxY then False
           else segmentCheck point path threshold 0)"

section \<open>Notions used to state the properties\<close>

text \<open>
  The unfiltered hit test, from the specification's words: the point is near when its
  distance to some consecutive segment of the stroke is less than
  \<open>threshold + strokeWidth / 2\<close>. There is no bounding box in it.
\<close>

definition isPointNearPath_unfiltered :: "Point \<Rightarrow> DrawingPath \<Rightarrow> real \<Rightarrow> bool" where
  "isPointNearPath_unfiltered point path threshold =
     (\<exists>i \<in> set [0..<length (points path) - 1].
        distToSegment point (points path ! i) (points path ! (i + 1))
          < threshold + width path / 2)"

text \<open>
  The point of the line through \<open>v\<close> and \<open>w\<close> at parameter \<open>s\<close>; the closed segment
  \<open>[v, w]\<close> is the set of these points for \<open>0 \<le> s \<le> 1\<close>. The projection parameter is
  the \<open>t\<close> of \<open>distToSegment\<close> before it is clamped.
\<close>

definition segmentPoint :: "Point \<Rightarrow> Point \<Rightarrow> real \<Rightarrow> Point" where
  "segmentPoint v w s = \<lparr>x = x v + s * (x w - x v), y = y v + s * (y w - y v)\<rparr>"

definition projectionParameter :: "Point \<Rightarrow> Point \<Rightarrow> Point \<Rightarrow> real" where
  "projectionParameter p v w =
     ((x p - x v) * (x w - x v) + (y p - y v) * (y w - y v)) / (distance v w)\<^sup>2"

text \<open>
  A point is within \<open>eps\<close> of the polyline through \<open>out\<close> when one of the segments
  between consecutive points of \<open>out\<close> is at distance at most \<open>eps\<close> from it. A polyline
  through a single point has no segment: it is that point.
\<close>

definition withinPolyline :: "real \<Rightarrow> Point \<Rightarrow> Point list \<Rightarrow> bool" where
  "withinPolyline eps p out =
     (if length out = 1 then distance p (out ! 0) \<le> eps
      else \<exists>i \<in> set [0..<length out - 1].
             distToSegment p (out ! i) (out ! (i + 1)) \<le> eps)"

section \<open>Example strokes\<close>

text \<open>
  Ten points on a straight line; a horizontal pen stroke of the default width; three
  collinear points; a closed 60 by 80 rectangle drawn with ten
  points; a closed stroke of ten points on the circle of radius 5 around the origin.
\<close>

definition line10 :: "Point list" where
  "line10 = [\<lparr>x = 0, y = 0\<rparr>, \<lparr>x = 1, y = 0\<rparr>, \<lparr>x = 2, y = 0\<rparr>, \<lparr>x = 3, y = 0\<rparr>,
             \<lparr>x = 4, y = 0\<rparr>, \<lparr>x = 5, y = 0\<rparr>, \<lparr>x = 6, y = 0\<rparr>, \<lparr>x = 7, y = 0\<rparr>,
             \<lparr>x = 8, y = 0\<rparr>, \<lparr>x = 9, y = 0\<rparr>]"

definition demoStroke :: DrawingPath where
  "demoStroke = \<lparr>points = [\<lparr>x = 0, y = 0\<rparr>, \<lparr>x = 100, y = 0\<rparr>], color = ''#000000'',
          width = 3, tool = PEN, opacity = 1, isShape = None\<rparr>"

definition collinear3 :: "Point list" where
  "collinear3 = [\<lparr>x = 0, y = 0\<rparr>, \<lparr>x = 1, y = 0\<rparr>, \<lparr>x = 2, y = 0\<rparr>]"

definition rectStroke :: "Point list" where
  "rectStroke = [\<lparr>x = 0, y = 0\<rparr>, \<lparr>x = 30, y = 0\<rparr>, \<lparr>x = 60, y = 0\<rparr>, \<lparr>x = 60, y = 40\<rparr>,
                 \<lparr>x = 60, y = 80\<rparr>, \<lparr>x = 30, y = 80\<rparr>, \<lparr>x = 0, y = 80\<rparr>, \<lparr>x = 0, y = 40\<rparr>,
                 \<lparr>x = 0, y = 20\<rparr>, \<lparr>x = 0, y = 0\<rparr>]"


section \<open>Geometry primitives\<close>

lemma distance_nonneg: "0 \<le> distance p q"
  by (simp add: distance_def)

lemma distance_self: "distance p p = 0"
  by (simp add: distance_def)

lemma distance_sq: "(distance v w)\<^sup>2 = (x w - x v)\<^sup>2 + (y w - y v)\<^sup>2"
  by (simp add: distance_def)

lemma distance_eq_0_iff: "distance (p::Point) q = 0 \<longleftrightarrow> p = q"
  by (auto simp add: distance_def sum_power2_eq_zero_iff)

text \<open>\<open>Math.min\<close> and \<open>Math.max\<close> of a non-empty list are its least and greatest element.\<close>

lemma mathMin_Min: "as \<noteq> [] \<Longrightarrow> mathMin as = Min (set as)"
proof (cases as)
  case (Cons a list)
  then show ?thesis
    using Min.set_eq_fold[of a list] by simp
qed simp

lemma mathMax_Max: "as \<noteq> [] \<Longrightarrow> mathMax as = Max (set as)"
proof (cases as)
  case (Cons a list)
  then show ?thesis
    using Max.set_eq_fold[of a list] by simp
qed simp

lemma mathMin_le: "a \<in> set as \<Longrightarrow> mathMin as \<le> a"
  by (cases "as = []") (simp_all add: mathMin_Min)

lemma mathMax_ge: "a \<in> set as \<Longrightarrow> a \<le> mathMax as"
  by (cases "as = []") (simp_all add: mathMax_Max)

subsection \<open>The clamped projection minimises the distance\<close>

lemma clamped_quadratic_min:
  fixes a b c d s :: real
  assumes l2: "a\<^sup>2 + b\<^sup>2 \<noteq> 0" and s: "0 \<le> s" "s \<le> 1"
  defines "t \<equiv> max 0 (min 1 ((c * a + d * b) / (a\<^sup>2 + b\<^sup>2)))"
  shows "(c - t * a)\<^sup>2 + (d - t * b)\<^sup>2 \<le> (c - s * a)\<^sup>2 + (d - s * b)\<^sup>2"
proof -
  define l where "l = a\<^sup>2 + b\<^sup>2"
  define dot where "dot = c * a + d * b"
  have lpos: "0 < l"
    using l2 unfolding l_def by (metis sum_power2_gt_zero_iff sum_power2_eq_zero_iff)
  have expand: "(c - u * a)\<^sup>2 + (d - u * b)\<^sup>2 = c\<^sup>2 + d\<^sup>2 - 2 * u * dot + u\<^sup>2 * l" for u
    unfolding l_def dot_def by (simp add: power2_eq_square algebra_simps)
  have t: "t = max 0 (min 1 (dot / l))"
    unfolding t_def l_def dot_def ..
  consider (below) "dot / l < 0" | (above) "1 < dot / l" | (inside) "0 \<le> dot / l" "dot / l \<le> 1"
    by linarith
  then have "- 2 * t * dot + t\<^sup>2 * l \<le> - 2 * s * dot + s\<^sup>2 * l"
  proof cases
    case below
    then have t0: "t = 0" using t by simp
    from below lpos have "dot < 0" by (simp add: divide_less_0_iff)
    then have "0 \<le> s * (- dot)" using s by (intro mult_nonneg_nonneg) simp_all
    moreover have "0 \<le> s\<^sup>2 * l" using lpos by simp
    ultimately show ?thesis using t0 by simp
  next
    case above
    then have t1: "t = 1" using t by simp
    from above lpos have dl: "l < dot" by (simp add: pos_less_divide_eq)
    have "l * (1 + s) \<le> l * 2" using s lpos by (intro mult_left_mono) simp_all
    then have B: "0 \<le> 2 * dot - l * (1 + s)" using dl by simp
    have A: "0 \<le> 1 - s" using s by simp
    have "0 \<le> (1 - s) * (2 * dot - l * (1 + s))"
      by (rule mult_nonneg_nonneg [OF A B])
    also have "\<dots> = (- 2 * s * dot + s\<^sup>2 * l) - (- 2 * dot + l)"
      by (simp add: power2_eq_square algebra_simps)
    finally show ?thesis using t1 by simp
  next
    case inside
    then have tt: "t = dot / l" using t by simp
    then have dot: "dot = t * l" using lpos by simp
    have "0 \<le> l * (s - t)\<^sup>2" using lpos by simp
    also have "\<dots> = (- 2 * s * (t * l) + s\<^sup>2 * l) - (- 2 * t * (t * l) + t\<^sup>2 * l)"
      by (simp add: power2_eq_square algebra_simps)
    finally show ?thesis unfolding dot[symmetric] by simp
  qed
  then show ?thesis by (simp add: expand)
qed

lemma distance_segmentPoint:
  "distance p (segmentPoint v w s)
     = sqrt ((x p - x v - s * (x w - x v))\<^sup>2 + (y p - y v - s * (y w - y v))\<^sup>2)"
proof -
  have "(x v + s * (x w - x v) - x p)\<^sup>2 = (x p - x v - s * (x w - x v))\<^sup>2"
    by (subst power2_commute) (simp add: algebra_simps)
  moreover have "(y v + s * (y w - y v) - y p)\<^sup>2 = (y p - y v - s * (y w - y v))\<^sup>2"
    by (subst power2_commute) (simp add: algebra_simps)
  ultimately show ?thesis by (simp add: distance_def segmentPoint_def)
qed

lemma segmentPoint_0: "segmentPoint v w 0 = v"
  by (simp add: segmentPoint_def)

lemma segmentPoint_1: "segmentPoint v w 1 = w"
  by (simp add: segmentPoint_def)

lemma distToSegment_same: "distToSegment p v v = distance p v"
  by (simp add: distToSegment_def distance_self)

lemma distToSegment_projection:
  "v \<noteq> w \<Longrightarrow>
     distToSegment p v w
       = distance p (segmentPoint v w (max 0 (min 1 (projectionParameter p v w))))"
  by (simp add: distToSegment_def Let_def distance_eq_0_iff segmentPoint_def
      projectionParameter_def)

lemma distToSegment_le:
  assumes "0 \<le> s" "s \<le> 1"
  shows "distToSegment p v w \<le> distance p (segmentPoint v w s)"
proof (cases "v = w")
  case True
  then show ?thesis
    by (simp add: distToSegment_same segmentPoint_def distance_def)
next
  case False
  then have l2: "(x w - x v)\<^sup>2 + (y w - y v)\<^sup>2 \<noteq> 0"
    using distance_eq_0_iff[of v w] by (simp add: distance_def)
  show ?thesis
    unfolding distToSegment_projection[OF False] distance_segmentPoint projectionParameter_def
      distance_sq
    by (rule real_sqrt_le_mono) (rule clamped_quadratic_min[OF l2 assms])
qed

lemma distToSegment_nonneg: "0 \<le> distToSegment p v w"
  by (simp add: distToSegment_def Let_def distance_nonneg)

lemma distToSegment_first: "distToSegment v v w = 0"
proof -
  have "distToSegment v v w \<le> distance v (segmentPoint v w 0)"
    by (rule distToSegment_le) simp_all
  then show ?thesis
    using distToSegment_nonneg[of v v w] by (simp add: segmentPoint_0 distance_self)
qed

lemma distToSegment_second: "distToSegment w v w = 0"
proof -
  have "distToSegment w v w \<le> distance w (segmentPoint v w 1)"
    by (rule distToSegment_le) simp_all
  then show ?thesis
    using distToSegment_nonneg[of w v w] by (simp add: segmentPoint_1 distance_self)
qed

lemma distToSegment_attained:
  "\<exists>s. 0 \<le> s \<and> s \<le> 1 \<and> distToSegment p v w = distance p (segmentPoint v w s)"
proof (cases "v = w")
  case True
  then show ?thesis
    by (intro exI[of _ 0]) (simp add: distToSegment_same segmentPoint_0)
next
  case False
  show ?thesis
    by (intro exI[of _ "max 0 (min 1 (projectionParameter p v w))"])
      (simp add: distToSegment_projection[OF False])
qed

text \<open>
  Claim C8. \<open>distToSegment p v w\<close> is the least distance from \<open>p\<close> to a point of the
  closed segment \<open>[v, w]\<close>: it is a lower bound of these distances and one of them. When
  \<open>v = w\<close> it is the distance to \<open>v\<close>; when the projection parameter is below 0 it is
  the distance to \<open>v\<close>, which is then the nearer end, and when the parameter is above 1
  it is the distance to \<open>w\<close>, which is then the nearer end.
\<close>

theorem distToSegment_shortest:
  "(\<forall>s. 0 \<le> s \<and> s \<le> 1 \<longrightarrow> distToSegment p v w \<le> distance p (segmentPoint v w s))
   \<and> (\<exists>s. 0 \<le> s \<and> s \<le> 1 \<and> distToSegment p v w = distance p (segmentPoint v w s))
   \<and> (v = w \<longrightarrow> distToSegment p v w = distance p v)
   \<and> (v \<noteq> w \<and> projectionParameter p v w < 0 \<longrightarrow>
         distToSegment p v w = distance p v \<and> distance p v \<le> distance p w)
   \<and> (v \<noteq> w \<and> projectionParameter p v w > 1 \<longrightarrow>
         distToSegment p v w = distance p w \<and> distance p w \<le> distance p v)"
proof (intro conjI allI impI)
  fix s :: real
  assume "0 \<le> s \<and> s \<le> 1"
  then show "distToSegment p v w \<le> distance p (segmentPoint v w s)"
    by (simp add: distToSegment_le)
next
  show "\<exists>s. 0 \<le> s \<and> s \<le> 1 \<and> distToSegment p v w = distance p (segmentPoint v w s)"
    by (rule distToSegment_attained)
next
  assume "v = w"
  then show "distToSegment p v w = distance p v"
    by (simp add: distToSegment_same)
next
  assume a: "v \<noteq> w \<and> projectionParameter p v w < 0"
  then show "distToSegment p v w = distance p v"
    by (simp add: distToSegment_projection segmentPoint_0)
  with distToSegment_le[of 1 p v w] show "distance p v \<le> distance p w"
    by (simp add: segmentPoint_1)
next
  assume a: "v \<noteq> w \<and> projectionParameter p v w > 1"
  then show "distToSegment p v w = distance p w"
    by (simp add: distToSegment_projection segmentPoint_1)
  with distToSegment_le[of 0 p v w] show "distance p w \<le> distance p v"
    by (simp add: segmentPoint_0)
qed

text \<open>
  The theorem at a zero-length segment, at a point that projects before the segment, at
  one that projects behind it, and at the midpoint of the segment.
\<close>

lemma sqrt_25: "sqrt 25 = 5"
  by (rule real_sqrt_unique) simp_all

theorem distToSegment_shortest_witness:
  "distToSegment \<lparr>x = 3, y = 4\<rparr> \<lparr>x = 0, y = 0\<rparr> \<lparr>x = 0, y = 0\<rparr> = 5
   \<and> \<lparr>x = 0, y = 0\<rparr> \<noteq> \<lparr>x = 10, y = 0\<rparr>
   \<and> projectionParameter \<lparr>x = - 3, y = 4\<rparr> \<lparr>x = 0, y = 0\<rparr> \<lparr>x = 10, y = 0\<rparr> < 0
   \<and> distToSegment \<lparr>x = - 3, y = 4\<rparr> \<lparr>x = 0, y = 0\<rparr> \<lparr>x = 10, y = 0\<rparr> = 5
   \<and> projectionParameter \<lparr>x = 13, y = 4\<rparr> \<lparr>x = 0, y = 0\<rparr> \<lparr>x = 10, y = 0\<rparr> > 1
   \<and> distToSegment \<lparr>x = 13, y = 4\<rparr> \<lparr>x = 0, y = 0\<rparr> \<lparr>x = 10, y = 0\<rparr> = 5
   \<and> (0::real) \<le> 1 / 2 \<and> (1::real) / 2 \<le> 1
   \<and> distToSegment \<lparr>x = 13, y = 4\<rparr> \<lparr>x = 0, y = 0\<rparr> \<lparr>x = 10, y = 0\<rparr>
        \<le> distance \<lparr>x = 13, y = 4\<rparr> (segmentPoint \<lparr>x = 0, y = 0\<rparr> \<lparr>x = 10, y = 0\<rparr> (1 / 2))"
  using distToSegment_shortest [of "\<lparr>x = 3, y = 4\<rparr>" "\<lparr>x = 0, y = 0\<rparr>" "\<lparr>x = 0, y = 0\<rparr>"]
    distToSegment_shortest [of "\<lparr>x = - 3, y = 4\<rparr>" "\<lparr>x = 0, y = 0\<rparr>" "\<lparr>x = 10, y = 0\<rparr>"]
    distToSegment_shortest [of "\<lparr>x = 13, y = 4\<rparr>" "\<lparr>x = 0, y = 0\<rparr>" "\<lparr>x = 10, y = 0\<rparr>"]
    distToSegment_shortest [of "\<lparr>x = 13, y = 4\<rparr>" "\<lparr>x = 0, y = 0\<rparr>" "\<lparr>x = 10, y = 0\<rparr>",
      THEN conjunct1, THEN spec [of _ "1 / 2"]]
  by (simp add: projectionParameter_def distance_def sqrt_25)

section \<open>Stroke eraser hit test\<close>

text \<open>
  The loop of the detailed check answers whether some segment from \<open>i\<close> on is closer
  than the hit radius.
\<close>

lemma segmentCheck_iff:
  "segmentCheck p path t i \<longleftrightarrow>
     (\<exists>j. i \<le> j \<and> j < length (points path) - 1 \<and>
          distToSegment p (points path ! j) (points path ! (j + 1)) < t + width path / 2)"
proof (induction p path t i rule: segmentCheck.induct)
  case (1 point path threshold i)
  show ?case
  proof (cases "i < length (points path) - 1")
    case False
    then show ?thesis by (subst segmentCheck.simps) auto
  next
    case True
    show ?thesis
    proof (cases "distToSegment point (points path ! i) (points path ! (i + 1))
                    < threshold + width path / 2")
      case hit: True
      with True show ?thesis by (subst segmentCheck.simps) (auto simp: Let_def)
    next
      case miss: False
      have "segmentCheck point path threshold i = segmentCheck point path threshold (i + 1)"
        using True miss by (subst segmentCheck.simps) (simp add: Let_def)
      also have "\<dots> = (\<exists>j. i + 1 \<le> j \<and> j < length (points path) - 1 \<and>
          distToSegment point (points path ! j) (points path ! (j + 1)) < threshold + width path / 2)"
        using "1.IH" True miss by simp
      also have "\<dots> = (\<exists>j. i \<le> j \<and> j < length (points path) - 1 \<and>
          distToSegment point (points path ! j) (points path ! (j + 1)) < threshold + width path / 2)"
        using miss by (metis Suc_eq_plus1 Suc_leD Suc_leI le_neq_implies_less)
      finally show ?thesis .
    qed
  qed
qed

text \<open>
  Claim C7. The hit test is monotonic in the threshold: a point that is near a stroke
  for a threshold \<open>t\<close> is near it for every larger threshold \<open>t'\<close>. The bounding box of
  the pre-filter grows with the threshold, and so does the hit radius.
\<close>

theorem isPointNearPath_monotonic:
  assumes "t < t'" and "isPointNearPath p s t"
  shows "isPointNearPath p s t'"
proof -
  from assms(2) have len: "\<not> length (points s) < 2"
    by (auto simp: isPointNearPath_def)
  from assms(2) len have box:
    "\<not> (x p < mathMin (map x (points s)) - t \<or> x p > mathMax (map x (points s)) + t \<or>
        y p < mathMin (map y (points s)) - t \<or> y p > mathMax (map y (points s)) + t)"
    and seg: "segmentCheck p s t 0"
    by (auto simp: isPointNearPath_def Let_def split: if_splits)
  from box assms(1) have box':
    "\<not> (x p < mathMin (map x (points s)) - t' \<or> x p > mathMax (map x (points s)) + t' \<or>
        y p < mathMin (map y (points s)) - t' \<or> y p > mathMax (map y (points s)) + t')"
    by auto
  from seg obtain j where "j < length (points s) - 1"
    "distToSegment p (points s ! j) (points s ! (j + 1)) < t + width s / 2"
    by (auto simp: segmentCheck_iff)
  with assms(1) have "segmentCheck p s t' 0"
    by (auto simp: segmentCheck_iff intro!: exI[of _ j])
  with len box' show ?thesis
    by (simp add: isPointNearPath_def Let_def)
qed

lemma less_sqrt_iff: "0 \<le> b \<Longrightarrow> b < sqrt a \<longleftrightarrow> b\<^sup>2 < a"
  by (metis real_sqrt_abs abs_of_nonneg real_sqrt_less_iff)

lemma sqrt_less_iff: "0 \<le> b \<Longrightarrow> sqrt a < b \<longleftrightarrow> a < b\<^sup>2"
  by (metis real_sqrt_abs abs_of_nonneg real_sqrt_less_iff)

lemma near_demo: "isPointNearPath \<lparr>x = 50, y = 4\<rparr> demoStroke 5"
  by (simp add: isPointNearPath_def demoStroke_def segmentCheck.simps distToSegment_def
      distance_def Let_def real_sqrt_less_iff[of _ "36", simplified])

theorem isPointNearPath_monotonic_witness:
  "(5::real) < 10 \<and> isPointNearPath \<lparr>x = 50, y = 4\<rparr> demoStroke 5
     \<and> isPointNearPath \<lparr>x = 50, y = 4\<rparr> demoStroke 10"
  using isPointNearPath_monotonic [of 5 10 "\<lparr>x = 50, y = 4\<rparr>" demoStroke] near_demo
  by simp

text \<open>
  Claim C10. The hit test reads only the points and the width of a stroke: two strokes
  with the same points and the same width give the same answer, whatever their colour,
  tool, opacity and shape flag.
\<close>

theorem isPointNearPath_styling:
  assumes "points a = points b" and "width a = width b"
  shows "isPointNearPath p a t = isPointNearPath p b t"
  using assms by (simp add: isPointNearPath_def segmentCheck_iff)

theorem isPointNearPath_styling_witness:
  "points demoStroke = points (demoStroke\<lparr>color := ''#EF4444'', tool := HIGHLIGHTER, opacity := 0.3, isShape := Some True\<rparr>)
   \<and> width demoStroke = width (demoStroke\<lparr>color := ''#EF4444'', tool := HIGHLIGHTER, opacity := 0.3, isShape := Some True\<rparr>)
   \<and> demoStroke \<noteq> demoStroke\<lparr>color := ''#EF4444'', tool := HIGHLIGHTER, opacity := 0.3, isShape := Some True\<rparr>
   \<and> isPointNearPath \<lparr>x = 50, y = 4\<rparr> demoStroke 5
      = isPointNearPath \<lparr>x = 50, y = 4\<rparr> (demoStroke\<lparr>color := ''#EF4444'', tool := HIGHLIGHTER, opacity := 0.3, isShape := Some True\<rparr>) 5"
  using isPointNearPath_styling [of demoStroke "demoStroke\<lparr>color := ''#EF4444'', tool := HIGHLIGHTER, opacity := 0.3, isShape := Some True\<rparr>" "\<lparr>x = 50, y = 4\<rparr>" 5]
  by (simp add: demoStroke_def)

text \<open>
  The pre-filter can only reject: the hit test is the unfiltered test restricted to the
  expanded bounding box. A point closer than \<open>r\<close> to a segment of the stroke lies within
  the bounding box expanded by \<open>r\<close>, so the filter rejects nothing that the segment test
  accepts when the hit radius \<open>threshold + width / 2\<close> is at most \<open>threshold\<close>.
\<close>

lemma isPointNearPath_filtered:
  "isPointNearPath p s t \<longleftrightarrow>
     2 \<le> length (points s)
     \<and> mathMin (map x (points s)) - t \<le> x p \<and> x p \<le> mathMax (map x (points s)) + t
     \<and> mathMin (map y (points s)) - t \<le> y p \<and> y p \<le> mathMax (map y (points s)) + t
     \<and> isPointNearPath_unfiltered p s t"
  by (auto simp: isPointNearPath_def isPointNearPath_unfiltered_def segmentCheck_iff Let_def)

lemma between_ends:
  fixes a b s :: real
  assumes "0 \<le> s" "s \<le> 1"
  shows "min a b \<le> a + s * (b - a)" and "a + s * (b - a) \<le> max a b"
proof -
  have "min a b \<le> a + s * (b - a) \<and> a + s * (b - a) \<le> max a b"
  proof (cases "a \<le> b")
    case True
    then have "0 \<le> s * (b - a)" using assms by simp
    moreover have "s * (b - a) \<le> 1 * (b - a)"
      using True assms by (intro mult_right_mono) simp_all
    ultimately show ?thesis using True by simp
  next
    case False
    then have "0 \<le> s * (a - b)" using assms by simp
    moreover have "s * (a - b) \<le> 1 * (a - b)"
      using False assms by (intro mult_right_mono) simp_all
    ultimately show ?thesis using False by (simp add: algebra_simps)
  qed
  then show "min a b \<le> a + s * (b - a)" and "a + s * (b - a) \<le> max a b" by simp_all
qed

lemma near_segment_in_box:
  assumes i: "i + 1 < length ps" and d: "distToSegment p (ps ! i) (ps ! (i + 1)) < r"
  shows "mathMin (map x ps) - r < x p" "x p < mathMax (map x ps) + r"
    "mathMin (map y ps) - r < y p" "y p < mathMax (map y ps) + r"
proof -
  let ?v = "ps ! i" and ?w = "ps ! (i + 1)"
  from distToSegment_attained[of p ?v ?w] d obtain s where
    s: "0 \<le> s" "s \<le> 1" and q: "distance p (segmentPoint ?v ?w s) < r"
    by auto
  have "\<bar>x (segmentPoint ?v ?w s) - x p\<bar> \<le> distance p (segmentPoint ?v ?w s)"
    unfolding distance_def by (rule real_sqrt_ge_abs1)
  with q have ax: "\<bar>x (segmentPoint ?v ?w s) - x p\<bar> < r" by simp
  have "\<bar>y (segmentPoint ?v ?w s) - y p\<bar> \<le> distance p (segmentPoint ?v ?w s)"
    unfolding distance_def by (rule real_sqrt_ge_abs2)
  with q have ay: "\<bar>y (segmentPoint ?v ?w s) - y p\<bar> < r" by simp
  from i have mem: "?v \<in> set ps" "?w \<in> set ps" by simp_all
  then have xs: "x ?v \<in> set (map x ps)" "x ?w \<in> set (map x ps)"
    and ys: "y ?v \<in> set (map y ps)" "y ?w \<in> set (map y ps)"
    by simp_all
  have "mathMin (map x ps) \<le> min (x ?v) (x ?w)"
    using mathMin_le[OF xs(1)] mathMin_le[OF xs(2)] by simp
  also have "\<dots> \<le> x (segmentPoint ?v ?w s)"
    using between_ends(1)[OF s] by (simp add: segmentPoint_def)
  finally show "mathMin (map x ps) - r < x p" using ax by linarith
  have "x (segmentPoint ?v ?w s) \<le> max (x ?v) (x ?w)"
    using between_ends(2)[OF s] by (simp add: segmentPoint_def)
  also have "\<dots> \<le> mathMax (map x ps)"
    using mathMax_ge[OF xs(1)] mathMax_ge[OF xs(2)] by simp
  finally show "x p < mathMax (map x ps) + r" using ax by linarith
  have "mathMin (map y ps) \<le> min (y ?v) (y ?w)"
    using mathMin_le[OF ys(1)] mathMin_le[OF ys(2)] by simp
  also have "\<dots> \<le> y (segmentPoint ?v ?w s)"
    using between_ends(1)[OF s] by (simp add: segmentPoint_def)
  finally show "mathMin (map y ps) - r < y p" using ay by linarith
  have "y (segmentPoint ?v ?w s) \<le> max (y ?v) (y ?w)"
    using between_ends(2)[OF s] by (simp add: segmentPoint_def)
  also have "\<dots> \<le> mathMax (map y ps)"
    using mathMax_ge[OF ys(1)] mathMax_ge[OF ys(2)] by simp
  finally show "y p < mathMax (map y ps) + r" using ay by linarith
qed

lemma isPointNearPath_thin_stroke:
  assumes "width s \<le> 0"
  shows "isPointNearPath p s t = isPointNearPath_unfiltered p s t"
proof
  assume "isPointNearPath p s t"
  then show "isPointNearPath_unfiltered p s t"
    by (simp add: isPointNearPath_filtered)
next
  assume u: "isPointNearPath_unfiltered p s t"
  then obtain i where i: "i + 1 < length (points s)"
    and d: "distToSegment p (points s ! i) (points s ! (i + 1)) < t + width s / 2"
    by (auto simp: isPointNearPath_unfiltered_def less_diff_conv)
  from d assms have "distToSegment p (points s ! i) (points s ! (i + 1)) < t" by simp
  from near_segment_in_box[OF i this] i u show "isPointNearPath p s t"
    by (simp add: isPointNearPath_filtered)
qed

lemma sqrt_121: "sqrt 121 = 11"
  by (rule real_sqrt_unique) simp_all

text \<open>
  Claim C1. The bounding-box pre-filter is meant to change nothing. For a stroke of
  positive width it does: the box is expanded by \<open>threshold\<close> only, while the hit radius
  is \<open>threshold + width / 2\<close>. For a
  horizontal pen stroke of width 3 from \<open>(0, 0)\<close> to \<open>(100, 0)\<close> and the eraser's threshold
  10, the point \<open>(50, 11)\<close> is rejected by the filter, and is at distance \<open>11 < 11.5\<close> of
  the stroke's only segment.
\<close>

theorem isPointNearPath_filter_differs:
  "isPointNearPath \<lparr>x = 50, y = 11\<rparr>
       \<lparr>points = [\<lparr>x = 0, y = 0\<rparr>, \<lparr>x = 100, y = 0\<rparr>], color = ''#000000'',
          width = 3, tool = PEN, opacity = 1, isShape = None\<rparr> 10 = False
   \<and> isPointNearPath_unfiltered \<lparr>x = 50, y = 11\<rparr>
       \<lparr>points = [\<lparr>x = 0, y = 0\<rparr>, \<lparr>x = 100, y = 0\<rparr>], color = ''#000000'',
          width = 3, tool = PEN, opacity = 1, isShape = None\<rparr> 10 = True"
  by (simp add: isPointNearPath_def isPointNearPath_unfiltered_def distToSegment_def
      distance_def Let_def sqrt_121)

section \<open>Ramer-Douglas-Peucker simplification\<close>

subsection \<open>The scan for the farthest point\<close>

lemma farthest_fold:
  assumes "set js \<subseteq> {1..<e}"
    and "(m = 0 \<and> k = 0) \<or> (0 < m \<and> 1 \<le> k \<and> k < e \<and> m = distToSegment (ps ! k) (ps ! 0) (ps ! e))"
    and "fold (farthestStep ps e) js (m, k) = (m', k')"
  shows "((m' = 0 \<and> k' = 0) \<or>
          (0 < m' \<and> 1 \<le> k' \<and> k' < e \<and> m' = distToSegment (ps ! k') (ps ! 0) (ps ! e)))
         \<and> m \<le> m' \<and> (\<forall>j \<in> set js. distToSegment (ps ! j) (ps ! 0) (ps ! e) \<le> m')"
  using assms
proof (induction js arbitrary: m k)
  case Nil
  then show ?case by auto
next
  case (Cons j js)
  let ?D = "\<lambda>i. distToSegment (ps ! i) (ps ! 0) (ps ! e)"
  from Cons.prems(1) have j: "1 \<le> j" "j < e" and js: "set js \<subseteq> {1..<e}" by auto
  from Cons.prems(2) have m0: "0 \<le> m" by auto
  show ?case
  proof (cases "?D j > m")
    case True
    with Cons.prems(3) have f: "fold (farthestStep ps e) js (?D j, j) = (m', k')"
      by (simp add: Let_def)
    have inv: "(?D j = 0 \<and> j = 0) \<or> (0 < ?D j \<and> 1 \<le> j \<and> j < e \<and> ?D j = ?D j)"
      using True m0 j by auto
    from Cons.IH[OF js inv f] True show ?thesis by auto
  next
    case False
    with Cons.prems(3) have f: "fold (farthestStep ps e) js (m, k) = (m', k')"
      by (simp add: Let_def)
    from Cons.IH[OF js Cons.prems(2) f] False show ?thesis by auto
  qed
qed

lemma farthest_cases:
  assumes "farthest ps e = (dmax, index)"
  shows "(dmax = 0 \<and> index = 0) \<or>
         (0 < dmax \<and> 1 \<le> index \<and> index < e \<and> dmax = distToSegment (ps ! index) (ps ! 0) (ps ! e))"
    and "\<And>j. 1 \<le> j \<Longrightarrow> j < e \<Longrightarrow> distToSegment (ps ! j) (ps ! 0) (ps ! e) \<le> dmax"
proof -
  have s: "set [1..<e] \<subseteq> {1..<e}" by simp
  have i: "((0::real) = 0 \<and> (0::nat) = 0) \<or>
     (0 < (0::real) \<and> 1 \<le> (0::nat) \<and> 0 < e \<and> 0 = distToSegment (ps ! 0) (ps ! 0) (ps ! e))"
    by simp
  note r = farthest_fold[OF s i assms[unfolded farthest_def]]
  from r show "(dmax = 0 \<and> index = 0) \<or>
         (0 < dmax \<and> 1 \<le> index \<and> index < e \<and> dmax = distToSegment (ps ! index) (ps ! 0) (ps ! e))"
    by simp
  fix j assume "1 \<le> j" "j < e"
  with r show "distToSegment (ps ! j) (ps ! 0) (ps ! e) \<le> dmax" by simp
qed

subsection \<open>Unfolding one call\<close>

lemma simplifyPoints_short: "length ps < 3 \<Longrightarrow> simplifyPoints ps eps = Some ps"
  by (subst simplifyPoints.simps) simp

lemma simplifyPoints_collapse:
  "\<not> length ps < 3 \<Longrightarrow> farthest ps (length ps - 1) = (dmax, index) \<Longrightarrow> \<not> eps < dmax \<Longrightarrow>
     simplifyPoints ps eps = Some [ps ! 0, ps ! (length ps - 1)]"
  by (subst simplifyPoints.simps) (simp add: Let_def)

lemma simplifyPoints_split:
  "\<not> length ps < 3 \<Longrightarrow> farthest ps (length ps - 1) = (dmax, index) \<Longrightarrow> eps < dmax \<Longrightarrow>
     simplifyPoints ps eps =
       do {
         res1 \<leftarrow> simplifyPoints (take (index + 1) ps) eps;
         res2 \<leftarrow> simplifyPoints (drop index ps) eps;
         Some (butlast res1 @ res2)
       }"
  by (subst simplifyPoints.simps) (simp add: Let_def)

text \<open>
  For a tolerance that is not negative the scan picks an interior point whenever the
  call recurses, so both recursive calls are on shorter sequences: the function returns,
  and properties of its result follow by induction on the length.
\<close>

lemma simplifyPoints_induct_nonneg [consumes 1, case_names short collapse split]:
  assumes eps: "0 \<le> eps"
    and short: "\<And>ps. length ps < 3 \<Longrightarrow> P ps ps"
    and collapse: "\<And>ps dmax index. 3 \<le> length ps \<Longrightarrow>
        farthest ps (length ps - 1) = (dmax, index) \<Longrightarrow> dmax \<le> eps \<Longrightarrow>
        P ps [ps ! 0, ps ! (length ps - 1)]"
    and split: "\<And>ps dmax index res1 res2. 3 \<le> length ps \<Longrightarrow>
        farthest ps (length ps - 1) = (dmax, index) \<Longrightarrow> eps < dmax \<Longrightarrow>
        1 \<le> index \<Longrightarrow> index < length ps - 1 \<Longrightarrow>
        simplifyPoints (take (index + 1) ps) eps = Some res1 \<Longrightarrow>
        simplifyPoints (drop index ps) eps = Some res2 \<Longrightarrow>
        P (take (index + 1) ps) res1 \<Longrightarrow> P (drop index ps) res2 \<Longrightarrow>
        P ps (butlast res1 @ res2)"
  shows "\<exists>out. simplifyPoints pts eps = Some out \<and> P pts out"
proof (induction "length pts" arbitrary: pts rule: less_induct)
  case less
  show ?case
  proof (cases "length pts < 3")
    case True
    then show ?thesis by (simp add: simplifyPoints_short short)
  next
    case False
    obtain dmax index where f: "farthest pts (length pts - 1) = (dmax, index)"
      by (cases "farthest pts (length pts - 1)") auto
    show ?thesis
    proof (cases "eps < dmax")
      case False
      then have le: "dmax \<le> eps" by simp
      from \<open>\<not> length pts < 3\<close> have "3 \<le> length pts" by simp
      from collapse[OF this f le] simplifyPoints_collapse[OF \<open>\<not> length pts < 3\<close> f False]
      show ?thesis by simp
    next
      case True
      with eps farthest_cases(1)[OF f] have i: "1 \<le> index" "index < length pts - 1"
        by auto
      then have "length (take (index + 1) pts) < length pts" by simp
      from less[OF this] obtain res1 where
        r1: "simplifyPoints (take (index + 1) pts) eps = Some res1" "P (take (index + 1) pts) res1"
        by blast
      from i have "length (drop index pts) < length pts" by simp
      from less[OF this] obtain res2 where
        r2: "simplifyPoints (drop index pts) eps = Some res2" "P (drop index pts) res2"
        by blast
      from \<open>\<not> length pts < 3\<close> have "3 \<le> length pts" by simp
      have "simplifyPoints pts eps = Some (butlast res1 @ res2)"
        unfolding simplifyPoints_split[OF \<open>\<not> length pts < 3\<close> f True] r1(1) r2(1) by simp
      with split[OF \<open>3 \<le> length pts\<close> f True i r1(1) r2(1) r1(2) r2(2)]
      show ?thesis by simp
    qed
  qed
qed

lemma simplifyPoints_returns: "0 \<le> eps \<Longrightarrow> \<exists>out. simplifyPoints pts eps = Some out"
  using simplifyPoints_induct_nonneg[of eps "\<lambda>_ _. True" pts] by auto

subsection \<open>The result is a subsequence with the same ends\<close>

lemma subseq_butlast: "subseq xs ys \<Longrightarrow> subseq (butlast xs) (butlast ys)"
proof (induction rule: list_emb.induct)
  case (list_emb_Nil ys)
  then show ?case by simp
next
  case (list_emb_Cons xs ys y)
  then show ?case by (cases ys) auto
next
  case (list_emb_Cons2 x y xs ys)
  then show ?case by (cases xs; cases ys) auto
qed

lemma simplifyPoints_partial:
  "simplifyPoints pts eps = Some out \<Longrightarrow> subseq out pts \<and> (pts \<noteq> [] \<longrightarrow> out \<noteq> [] \<and> hd out = hd pts \<and> last out = last pts)"
proof (induction pts eps out rule: simplifyPoints.raw_induct[rotated, consumes 1, case_names 1])
  case (1 simplifyPoints' ps eps out)
  show ?case
  proof (cases "length ps < 3")
    case True
    with 1(2) show ?thesis by simp
  next
    case False
    obtain dmax index where f: "farthest ps (length ps - 1) = (dmax, index)"
      by (cases "farthest ps (length ps - 1)") auto
    show ?thesis
    proof (cases "eps < dmax")
      case False
      with \<open>\<not> length ps < 3\<close> 1(2) f have out: "out = [ps ! 0, ps ! (length ps - 1)]"
        by (simp add: Let_def)
      from \<open>\<not> length ps < 3\<close> have ne: "ps \<noteq> []" "tl ps \<noteq> []"
        by (cases ps; cases "tl ps"; simp)+
      then have "ps = hd ps # butlast (tl ps) @ [last ps]"
        by (metis append_butlast_last_id last_tl list.collapse)
      moreover have "subseq [hd ps, last ps] (hd ps # butlast (tl ps) @ [last ps])"
        by (simp add: subseq_singleton_left)
      ultimately have "subseq [ps ! 0, ps ! (length ps - 1)] ps"
        using ne by (simp add: hd_conv_nth last_conv_nth)
      with out ne show ?thesis
        by (simp add: last_conv_nth hd_conv_nth)
    next
      case True
      with \<open>\<not> length ps < 3\<close> 1(2) f obtain res1 res2 where
        r1: "simplifyPoints' (take (index + 1) ps) eps = Some res1" and
        r2: "simplifyPoints' (drop index ps) eps = Some res2" and
        out: "out = butlast res1 @ res2"
        by (auto simp: Let_def bind_eq_Some_conv)
      from farthest_cases(1)[OF f] have i: "index < length ps - 1" 
        using \<open>\<not> length ps < 3\<close> by auto
      then have ne: "take (index + 1) ps \<noteq> []" "drop index ps \<noteq> []"
        using \<open>\<not> length ps < 3\<close> by auto
      from i have il: "index < length ps" by simp
      have L: "hd (take (index + 1) ps) = hd ps" "last (take (index + 1) ps) = ps ! index"
        using il by (cases ps, simp, simp) (simp add: take_Suc_conv_app_nth[OF il])
      have R: "hd (drop index ps) = ps ! index" "last (drop index ps) = last ps"
        using i by (simp_all add: hd_drop_conv_nth)
      from 1(1)[OF r1] ne have s1: "subseq res1 (take (index + 1) ps)" and
        e1: "res1 \<noteq> []" "hd res1 = hd ps" "last res1 = ps ! index"
        unfolding L by blast+
      from 1(1)[OF r2] ne have s2: "subseq res2 (drop index ps)" and
        e2: "res2 \<noteq> []" "hd res2 = ps ! index" "last res2 = last ps"
        unfolding R by blast+
      from subseq_butlast[OF s1] i have "subseq (butlast res1) (take index ps)"
        by (simp add: butlast_take)
      from list_emb_append_mono[OF this s2] have sub: "subseq out ps"
        by (simp add: out)
      have "hd out = hd ps"
      proof (cases "butlast res1 = []")
        case True
        with e1 have "hd res1 = last res1" by (cases res1) (auto split: if_splits)
        with True e1 e2 show ?thesis by (simp add: out)
      next
        case False
        then have "hd (butlast res1) = hd res1" by (cases res1) auto
        with False e1 show ?thesis by (simp add: out)
      qed
      with sub e2 show ?thesis by (simp add: out)
    qed
  qed
qed

subsection \<open>The result approximates the input\<close>

lemma butlast_append_glue:
  assumes "xs \<noteq> []" "ys \<noteq> []" "last xs = hd ys"
  shows "butlast xs @ ys = xs @ tl ys"
proof -
  from assms(2) obtain b bs where ys: "ys = b # bs" by (cases ys) auto
  with assms(3) have "last xs = b" by simp
  with append_butlast_last_id[OF assms(1)] have "butlast xs @ [b] = xs" by simp
  then have "xs @ tl ys = (butlast xs @ [b]) @ bs" by (simp add: ys)
  then show ?thesis by (simp add: ys)
qed

lemma near_short:
  assumes "length ps < 3" "0 \<le> eps" "2 \<le> length ps" "p \<in> set ps"
  shows "\<exists>i. Suc i < length ps \<and> distToSegment p (ps ! i) (ps ! Suc i) \<le> eps"
proof -
  from assms(1,3) obtain a b where ps: "ps = [a, b]"
    by (cases ps; cases "tl ps"; cases "tl (tl ps)") auto
  with assms(2,4) show ?thesis
    by (intro exI[of _ 0]) (auto simp: distToSegment_first distToSegment_second)
qed

lemma near_collapse:
  assumes "3 \<le> length ps" "farthest ps (length ps - 1) = (dmax, index)" "dmax \<le> eps"
    "p \<in> set ps"
  shows "distToSegment p (ps ! 0) (ps ! (length ps - 1)) \<le> eps"
proof -
  from farthest_cases(1)[OF assms(2)] assms(3) have eps: "0 \<le> eps" by auto
  from assms(4) obtain j where j: "j < length ps" "p = ps ! j"
    by (auto simp: in_set_conv_nth)
  consider "j = 0" | "j = length ps - 1" | "1 \<le> j" "j < length ps - 1"
    using j(1) by linarith
  then show ?thesis
  proof cases
    case 1
    with j eps show ?thesis by (simp add: distToSegment_first)
  next
    case 2
    with j eps show ?thesis by (simp add: distToSegment_second)
  next
    case 3
    from farthest_cases(2)[OF assms(2) 3] assms(3) j show ?thesis by simp
  qed
qed

lemma near_split:
  assumes i: "1 \<le> index" "index < length ps - 1"
    and r1: "simplifyPoints (take (index + 1) ps) eps = Some res1"
    and r2: "simplifyPoints (drop index ps) eps = Some res2"
    and l1: "2 \<le> length res1" and l2: "2 \<le> length res2"
    and n1: "\<And>p. p \<in> set (take (index + 1) ps) \<Longrightarrow>
               \<exists>i. Suc i < length res1 \<and> distToSegment p (res1 ! i) (res1 ! Suc i) \<le> eps"
    and n2: "\<And>p. p \<in> set (drop index ps) \<Longrightarrow>
               \<exists>i. Suc i < length res2 \<and> distToSegment p (res2 ! i) (res2 ! Suc i) \<le> eps"
    and p: "p \<in> set ps"
  shows "\<exists>i. Suc i < length (butlast res1 @ res2) \<and>
           distToSegment p ((butlast res1 @ res2) ! i) ((butlast res1 @ res2) ! Suc i) \<le> eps"
proof -
  from i have il: "index < length ps" by simp
  have ne: "take (index + 1) ps \<noteq> []" "drop index ps \<noteq> []"
    using il by auto
  have "last (take (index + 1) ps) = ps ! index"
    by (simp add: take_Suc_conv_app_nth[OF il])
  with simplifyPoints_partial[OF r1] ne have e1: "res1 \<noteq> []" "last res1 = ps ! index"
    by auto
  have "hd (drop index ps) = ps ! index"
    using il by (simp add: hd_drop_conv_nth)
  with simplifyPoints_partial[OF r2] ne have e2: "res2 \<noteq> []" "hd res2 = ps ! index"
    by auto
  have out: "butlast res1 @ res2 = res1 @ tl res2"
    by (rule butlast_append_glue) (simp_all add: e1 e2)
  have "ps = take index ps @ drop index ps" by simp
  then have "set ps = set (take index ps) \<union> set (drop index ps)"
    by (metis set_append)
  moreover have "set (take index ps) \<subseteq> set (take (index + 1) ps)"
    by (simp add: set_take_subset_set_take)
  ultimately consider "p \<in> set (take (index + 1) ps)" | "p \<in> set (drop index ps)"
    using p by auto
  then show ?thesis
  proof cases
    case 1
    from n1[OF 1] obtain k where k: "Suc k < length res1"
      "distToSegment p (res1 ! k) (res1 ! Suc k) \<le> eps" by blast
    then show ?thesis
      unfolding out by (intro exI[of _ k]) (simp add: nth_append)
  next
    case 2
    from n2[OF 2] obtain k where k: "Suc k < length res2"
      "distToSegment p (res2 ! k) (res2 ! Suc k) \<le> eps" by blast
    have "(butlast res1 @ res2) ! (length (butlast res1) + k) = res2 ! k"
      "(butlast res1 @ res2) ! Suc (length (butlast res1) + k) = res2 ! Suc k"
      by (simp_all add: nth_append)
    with k show ?thesis
      by (intro exI[of _ "length (butlast res1) + k"]) simp
  qed
qed

lemma simplifyPoints_near:
  assumes "0 \<le> eps"
  shows "\<exists>out. simplifyPoints pts eps = Some out \<and>
           (2 \<le> length pts \<longrightarrow> 2 \<le> length out \<and>
              (\<forall>p \<in> set pts. \<exists>i. Suc i < length out \<and>
                  distToSegment p (out ! i) (out ! Suc i) \<le> eps))"
proof (rule simplifyPoints_induct_nonneg[OF assms], goal_cases)
  case (1 ps)
  with assms show ?case by (auto dest: near_short)
next
  case (2 ps dmax index)
  then show ?case
    by (auto intro!: exI[of _ 0] dest: near_collapse)
next
  case (3 ps dmax index res1 res2)
  show ?case
  proof (intro impI conjI ballI)
    from 3(4,5) have "2 \<le> length (take (index + 1) ps)" "2 \<le> length (drop index ps)"
      by simp_all
    with 3(8,9) have l: "2 \<le> length res1" "2 \<le> length res2"
      and n1: "\<And>p. p \<in> set (take (index + 1) ps) \<Longrightarrow>
               \<exists>i. Suc i < length res1 \<and> distToSegment p (res1 ! i) (res1 ! Suc i) \<le> eps"
      and n2: "\<And>p. p \<in> set (drop index ps) \<Longrightarrow>
               \<exists>i. Suc i < length res2 \<and> distToSegment p (res2 ! i) (res2 ! Suc i) \<le> eps"
      by blast+
    from l show "2 \<le> length (butlast res1 @ res2)" by simp
    fix p assume "p \<in> set ps"
    from near_split[OF 3(4,5,6,7) l n1 n2 this]
    show "\<exists>i. Suc i < length (butlast res1 @ res2) \<and>
           distToSegment p ((butlast res1 @ res2) ! i) ((butlast res1 @ res2) ! Suc i) \<le> eps" .
  qed
qed

subsection \<open>Evaluating the example strokes\<close>

lemma sqrt_10000: "sqrt 10000 = 100"
  by (rule real_sqrt_unique) simp_all

lemmas eval_simps = farthest_def distToSegment_def distance_def Let_def less_sqrt_iff sqrt_less_iff power_divide

lemma simplify_rect:
  "simplifyPoints rectStroke 5
     = Some [\<lparr>x = 0, y = 0\<rparr>, \<lparr>x = 60, y = 0\<rparr>, \<lparr>x = 60, y = 80\<rparr>, \<lparr>x = 0, y = 80\<rparr>, \<lparr>x = 0, y = 0\<rparr>]"
  unfolding rectStroke_def
  by (simp add: simplifyPoints.simps eval_simps)


text \<open>
  Claim C6. Whatever the tolerance, a result of \<open>simplifyPoints\<close> is a subsequence of
  the input, and for a non-empty input it starts with the first input point and ends with
  the last. For a tolerance that is not negative there is always a result.
\<close>

theorem simplifyPoints_subsequence:
  "(0 \<le> eps \<longrightarrow> (\<exists>out. simplifyPoints pts eps = Some out))
   \<and> (\<forall>out. simplifyPoints pts eps = Some out \<longrightarrow>
          subseq out pts \<and>
          (pts \<noteq> [] \<longrightarrow> out \<noteq> [] \<and> hd out = hd pts \<and> last out = last pts))"
  using simplifyPoints_returns[of eps pts] simplifyPoints_partial[of pts eps] by blast

text \<open>
  The theorem at the rectangle with the tolerance 5, and at a bent stroke of three
  points with the negative tolerance \<open>-1\<close>, where the call returns all three points.
\<close>

lemma simplify_bent:
  "simplifyPoints [\<lparr>x = 0, y = 0\<rparr>, \<lparr>x = 1, y = 1\<rparr>, \<lparr>x = 2, y = 0\<rparr>] (- 1)
     = Some [\<lparr>x = 0, y = 0\<rparr>, \<lparr>x = 1, y = 1\<rparr>, \<lparr>x = 2, y = 0\<rparr>]"
  by (simp add: simplifyPoints.simps eval_simps)

theorem simplifyPoints_subsequence_witness:
  "(0::real) \<le> 5
   \<and> simplifyPoints rectStroke 5
       = Some [\<lparr>x = 0, y = 0\<rparr>, \<lparr>x = 60, y = 0\<rparr>, \<lparr>x = 60, y = 80\<rparr>, \<lparr>x = 0, y = 80\<rparr>, \<lparr>x = 0, y = 0\<rparr>]
   \<and> subseq [\<lparr>x = 0, y = 0\<rparr>, \<lparr>x = 60, y = 0\<rparr>, \<lparr>x = 60, y = 80\<rparr>, \<lparr>x = 0, y = 80\<rparr>, \<lparr>x = 0, y = 0\<rparr>]
         rectStroke
   \<and> rectStroke \<noteq> []
   \<and> hd [\<lparr>x = 0, y = 0\<rparr>, \<lparr>x = 60, y = 0\<rparr>, \<lparr>x = 60, y = 80\<rparr>, \<lparr>x = 0, y = 80\<rparr>, \<lparr>x = 0, y = 0\<rparr>]
       = hd rectStroke
   \<and> last [\<lparr>x = 0, y = 0\<rparr>, \<lparr>x = 60, y = 0\<rparr>, \<lparr>x = 60, y = 80\<rparr>, \<lparr>x = 0, y = 80\<rparr>, \<lparr>x = 0, y = 0\<rparr>]
       = last rectStroke
   \<and> simplifyPoints [\<lparr>x = 0, y = 0\<rparr>, \<lparr>x = 1, y = 1\<rparr>, \<lparr>x = 2, y = 0\<rparr>] (- 1)
       = Some [\<lparr>x = 0, y = 0\<rparr>, \<lparr>x = 1, y = 1\<rparr>, \<lparr>x = 2, y = 0\<rparr>]
   \<and> subseq [\<lparr>x = 0, y = 0\<rparr>, \<lparr>x = 1, y = 1\<rparr>, \<lparr>x = 2, y = 0\<rparr>]
         [\<lparr>x = 0, y = 0\<rparr>, \<lparr>x = 1, y = 1\<rparr>, \<lparr>x = 2, y = 0\<rparr>]"
  using simplifyPoints_subsequence [of 5 rectStroke] simplify_rect
    simplifyPoints_subsequence [of "- 1" "[\<lparr>x = 0, y = 0\<rparr>, \<lparr>x = 1, y = 1\<rparr>, \<lparr>x = 2, y = 0\<rparr>]"]
    simplify_bent
  by (simp add: rectStroke_def)

text \<open>
  Claim C2. For a tolerance \<open>eps \<ge> 0\<close>, \<open>simplifyPoints\<close> returns, and every point of
  the input is within \<open>eps\<close> of the polyline through the points it returns.
\<close>

theorem simplifyPoints_within_epsilon:
  assumes "0 \<le> eps"
  shows "\<exists>out. simplifyPoints pts eps = Some out \<and> (\<forall>p \<in> set pts. withinPolyline eps p out)"
proof (cases "2 \<le> length pts")
  case True
  from simplifyPoints_near[OF assms, of pts] True obtain out where
    out: "simplifyPoints pts eps = Some out" "2 \<le> length out"
    and near: "\<And>p. p \<in> set pts \<Longrightarrow>
      \<exists>i. Suc i < length out \<and> distToSegment p (out ! i) (out ! Suc i) \<le> eps"
    by blast
  have "withinPolyline eps p out" if "p \<in> set pts" for p
  proof -
    from near[OF that] obtain i where "Suc i < length out"
      "distToSegment p (out ! i) (out ! Suc i) \<le> eps" by blast
    with out(2) show ?thesis
      by (auto simp: withinPolyline_def intro!: bexI[of _ i])
  qed
  with out(1) show ?thesis by blast
next
  case False
  then have short: "simplifyPoints pts eps = Some pts"
    by (simp add: simplifyPoints_short)
  have "withinPolyline eps p pts" if "p \<in> set pts" for p
  proof -
    from False that have "pts = [p]"
      by (cases pts; cases "tl pts") auto
    with assms show ?thesis
      by (simp add: withinPolyline_def distance_self)
  qed
  with short show ?thesis by blast
qed

theorem simplifyPoints_within_epsilon_witness:
  "(0::real) \<le> 5
   \<and> simplifyPoints rectStroke 5
       = Some [\<lparr>x = 0, y = 0\<rparr>, \<lparr>x = 60, y = 0\<rparr>, \<lparr>x = 60, y = 80\<rparr>, \<lparr>x = 0, y = 80\<rparr>, \<lparr>x = 0, y = 0\<rparr>]
   \<and> \<lparr>x = 60, y = 40\<rparr> \<in> set rectStroke
   \<and> withinPolyline 5 \<lparr>x = 60, y = 40\<rparr>
        [\<lparr>x = 0, y = 0\<rparr>, \<lparr>x = 60, y = 0\<rparr>, \<lparr>x = 60, y = 80\<rparr>, \<lparr>x = 0, y = 80\<rparr>, \<lparr>x = 0, y = 0\<rparr>]"
proof -
  have m: "\<lparr>x = 60, y = 40\<rparr> \<in> set rectStroke"
    by (simp add: rectStroke_def)
  from simplifyPoints_within_epsilon [of 5 rectStroke] simplify_rect m show ?thesis
    by auto
qed

section \<open>Shape recognition\<close>

lemma zip_upt_map: "n \<le> length ps \<Longrightarrow> zip [0..<n] ps = map (\<lambda>i. (i, ps ! i)) [0..<n]"
  by (rule nth_equalityI) simp_all

lemma fold_reduce_sum:
  "fold (\<lambda>(i, p) acc. if i > 0 then acc + distance (ps ! (i - 1)) p else 0)
        (map (\<lambda>i. (i, ps ! i)) [0..<n]) 0
   = (\<Sum>i = 0..<n - 1. distance (ps ! i) (ps ! (i + 1)))"
proof (induction n)
  case 0
  then show ?case by simp
next
  case (Suc n)
  then show ?case by (cases n) simp_all
qed

lemma totalLength_sum:
  "totalLength ps = (\<Sum>i = 0..<length ps - 1. distance (ps ! i) (ps ! (i + 1)))"
  unfolding totalLength_def by (simp only: zip_upt_map[OF order_refl] fold_reduce_sum)

lemma diagonal_nonneg: "0 \<le> diagonal pts"
  by (simp add: diagonal_def Let_def)

lemma isClosed_loop:
  assumes "2 \<le> length pts" "pts ! 0 = pts ! (length pts - 1)" "pts ! 0 \<noteq> pts ! 1"
  shows "isClosed pts"
proof -
  have "0 < distance (pts ! 0) (pts ! (0 + 1))"
    using assms(3) distance_nonneg[of "pts ! 0" "pts ! 1"] distance_eq_0_iff[of "pts ! 0" "pts ! 1"]
    by simp
  also have "\<dots> \<le> (\<Sum>i = 0..<length pts - 1. distance (pts ! i) (pts ! (i + 1)))"
    using assms(1) by (intro member_le_sum) (auto simp: distance_nonneg)
  finally have "0 < totalLength pts" by (simp add: totalLength_sum)
  with assms(2) show ?thesis
    by (simp add: isClosed_def distance_self)
qed

text \<open>
  Claim C3. \<open>totalLength\<close> is the sum of the distances between consecutive points. For
  at least ten points whose stroke is not closed (the distance from the first to the last
  point is at least a quarter of the total length), \<open>recognizeShape\<close> returns the
  two points \<open>[first, last]\<close> when the total length is less than 1.2 times that distance,
  and \<open>null\<close> otherwise.
\<close>

theorem recognizeShape_open:
  "totalLength pts = (\<Sum>i = 0..<length pts - 1. distance (pts ! i) (pts ! (i + 1)))
   \<and> (10 \<le> length pts \<and> distance (hd pts) (last pts) \<ge> 0.25 * totalLength pts \<longrightarrow>
        recognizeShape pts =
          Some (if totalLength pts < 1.2 * distance (hd pts) (last pts)
                then Some [hd pts, last pts] else None))"
proof (intro conjI impI)
  show "totalLength pts = (\<Sum>i = 0..<length pts - 1. distance (pts ! i) (pts ! (i + 1)))"
    by (rule totalLength_sum)
next
  assume a: "10 \<le> length pts \<and> distance (hd pts) (last pts) \<ge> 0.25 * totalLength pts"
  then have ne: "pts \<noteq> []" by auto
  then have h: "hd pts = pts ! 0" and l: "last pts = pts ! (length pts - 1)"
    by (simp_all add: hd_conv_nth last_conv_nth)
  from a have "\<not> isClosed pts"
    by (simp add: isClosed_def h l)
  with a show "recognizeShape pts =
          Some (if totalLength pts < 1.2 * distance (hd pts) (last pts)
                then Some [hd pts, last pts] else None)"
    by (simp add: recognizeShape_def directDistance_def Let_def h l mult.commute)
qed

lemma upt_10: "[0..<10] = [0,1,2,3,4,5,6,7,8,9]"
  by (simp add: upt_rec)

lemma totalLength_line10: "totalLength line10 = 9"
  by (simp add: totalLength_def line10_def upt_10 distance_def)

lemma direct_line10: "distance (hd line10) (last line10) = 9"
  by (simp add: line10_def distance_def)

theorem recognizeShape_open_witness:
  "10 \<le> length line10 \<and> distance (hd line10) (last line10) \<ge> 0.25 * totalLength line10
   \<and> recognizeShape line10 = Some (Some [\<lparr>x = 0, y = 0\<rparr>, \<lparr>x = 9, y = 0\<rparr>])"
  using recognizeShape_open [of line10]
  by (simp add: totalLength_line10 direct_line10) (simp add: line10_def)

text \<open>
  Claim C4. For a closed stroke of at least ten points whose simplification at
  \<open>0.05 * diagonal\<close> has exactly five points, \<open>recognizeShape\<close> returns the four corners
  of the bounding box of the input points, in the order \<open>(minX, minY)\<close>, \<open>(maxX, minY)\<close>,
  \<open>(maxX, maxY)\<close>, \<open>(minX, maxY)\<close>, wherever the simplified vertices lie. The bounds are
  the least and greatest coordinates of the input points.
\<close>

theorem recognizeShape_rectangle:
  assumes "10 \<le> length pts"
    and "distance (hd pts) (last pts) < 0.25 * totalLength pts"
    and "simplifyPoints pts (0.05 * diagonal pts) = Some simplified"
    and "length simplified = 5"
  shows "recognizeShape pts =
           Some (Some [\<lparr>x = minX pts, y = minY pts\<rparr>, \<lparr>x = maxX pts, y = minY pts\<rparr>,
                       \<lparr>x = maxX pts, y = maxY pts\<rparr>, \<lparr>x = minX pts, y = maxY pts\<rparr>])
         \<and> minX pts = Min (x ` set pts) \<and> maxX pts = Max (x ` set pts)
         \<and> minY pts = Min (y ` set pts) \<and> maxY pts = Max (y ` set pts)"
proof -
  from assms(1) have ne: "pts \<noteq> []" by auto
  then have h: "hd pts = pts ! 0" and l: "last pts = pts ! (length pts - 1)"
    by (simp_all add: hd_conv_nth last_conv_nth)
  from assms(2) have c: "isClosed pts"
    by (simp add: isClosed_def h l mult.commute)
  from assms(3) have s: "simplifyPoints pts (diagonal pts * 0.05) = Some simplified"
    by (simp add: mult.commute)
  from assms(1) c assms(4) have "recognizeShape pts =
           Some (Some [\<lparr>x = minX pts, y = minY pts\<rparr>, \<lparr>x = maxX pts, y = minY pts\<rparr>,
                       \<lparr>x = maxX pts, y = maxY pts\<rparr>, \<lparr>x = minX pts, y = maxY pts\<rparr>])"
    unfolding recognizeShape_def Let_def s by simp
  with ne show ?thesis
    by (simp add: minX_def maxX_def minY_def maxY_def mathMin_Min mathMax_Max)
qed

lemma bbox_rect: "minX rectStroke = 0" "maxX rectStroke = 60" "minY rectStroke = 0" "maxY rectStroke = 80"
  by (simp_all add: minX_def maxX_def minY_def maxY_def rectStroke_def)

lemma diagonal_rect: "diagonal rectStroke = 100"
  by (simp add: diagonal_def bbox_rect Let_def sqrt_10000)

lemma closed_rect: "distance (hd rectStroke) (last rectStroke) < 0.25 * totalLength rectStroke"
proof -
  have "isClosed rectStroke"
    by (rule isClosed_loop) (simp_all add: rectStroke_def)
  then show ?thesis
    by (simp add: isClosed_def rectStroke_def)
qed

theorem recognizeShape_rectangle_witness:
  "10 \<le> length rectStroke
   \<and> distance (hd rectStroke) (last rectStroke) < 0.25 * totalLength rectStroke
   \<and> simplifyPoints rectStroke (0.05 * diagonal rectStroke)
       = Some [\<lparr>x = 0, y = 0\<rparr>, \<lparr>x = 60, y = 0\<rparr>, \<lparr>x = 60, y = 80\<rparr>, \<lparr>x = 0, y = 80\<rparr>, \<lparr>x = 0, y = 0\<rparr>]
   \<and> recognizeShape rectStroke
       = Some (Some [\<lparr>x = 0, y = 0\<rparr>, \<lparr>x = 60, y = 0\<rparr>, \<lparr>x = 60, y = 80\<rparr>, \<lparr>x = 0, y = 80\<rparr>])"
proof -
  have len: "10 \<le> length rectStroke" by (simp add: rectStroke_def)
  have s: "simplifyPoints rectStroke (0.05 * diagonal rectStroke)
       = Some [\<lparr>x = 0, y = 0\<rparr>, \<lparr>x = 60, y = 0\<rparr>, \<lparr>x = 60, y = 80\<rparr>, \<lparr>x = 0, y = 80\<rparr>, \<lparr>x = 0, y = 0\<rparr>]"
    by (simp add: diagonal_rect simplify_rect)
  from recognizeShape_rectangle [OF len closed_rect s] len closed_rect s show ?thesis
    by (simp add: bbox_rect)
qed

text \<open>
  The mean distance and the coefficient of variation, as sums over the distances: the
  population standard deviation divided by the mean.
\<close>

lemma fold_plus_sum_list: "fold (\<lambda>b a. a + f b) ds s = s + sum_list (map f ds)"
  by (induction ds arbitrary: s) (simp_all add: add.assoc)

lemma avgDist_sum_list:
  "avgDist simplified n c = sum_list (dists simplified n c) / real_of_int n"
  using fold_plus_sum_list[of "\<lambda>b. b" "dists simplified n c" 0]
  by (simp add: avgDist_def)

lemma cv_sum_list:
  "cv simplified n c =
     sqrt (sum_list (map (\<lambda>d. (d - avgDist simplified n c)\<^sup>2) (dists simplified n c))
             / real_of_int n)
       / avgDist simplified n c"
  using fold_plus_sum_list[of "\<lambda>d. (d - avgDist simplified n c)\<^sup>2" "dists simplified n c" 0]
  by (simp add: cv_def Let_def)

subsection \<open>The angle of the closing point\<close>






subsection \<open>The ellipse\<close>












section \<open>Negative tolerance\<close>

text \<open>
  For a negative tolerance the scan of \<open>simplifyPoints\<close> can end with \<open>dmax = 0\<close> and
  \<open>index = 0\<close>: then \<open>dmax > epsilon\<close> holds, and the second recursive call is on
  \<open>points.slice(0)\<close>, the same sequence. Such a call does not return; three collinear
  points and the tolerance \<open>-1\<close> are an example. \<open>recognizeShape\<close>, the only caller, passes
  \<open>diagonal * 0.05\<close>, which is not negative.
\<close>

lemma simplifyPoints_no_result:
  assumes "simplifyPoints ps eps = Some out"
  shows "\<not> (3 \<le> length ps \<and> farthest ps (length ps - 1) = (0, 0) \<and> eps < 0)"
  using assms
proof (induction ps eps out rule: simplifyPoints.raw_induct[rotated, consumes 1, case_names 1])
  case (1 simplifyPoints' ps eps out)
  show ?case
  proof
    assume a: "3 \<le> length ps \<and> farthest ps (length ps - 1) = (0, 0) \<and> eps < 0"
    with 1(2) obtain res2 where "simplifyPoints' (drop 0 ps) eps = Some res2"
      by (auto simp: Let_def bind_eq_Some_conv)
    then have "simplifyPoints' ps eps = Some res2" by simp
    from 1(1)[OF this] a show False by simp
  qed
qed

lemma simplifyPoints_negative_epsilon_diverges:
  "simplifyPoints [\<lparr>x = 0, y = 0\<rparr>, \<lparr>x = 1, y = 0\<rparr>, \<lparr>x = 2, y = 0\<rparr>] (- 1) = None"
proof -
  have f: "farthest collinear3 (length collinear3 - 1) = (0, 0)"
    by (simp add: collinear3_def eval_simps)
  have "simplifyPoints collinear3 (- 1) = Some out \<Longrightarrow> False" for out
    using simplifyPoints_no_result[of collinear3 "- 1" out] f by (simp add: collinear3_def)
  then have "simplifyPoints collinear3 (- 1) = None"
    by (cases "simplifyPoints collinear3 (- 1)") auto
  then show ?thesis by (simp add: collinear3_def)
qed

end
